theory Spec2Isabelle
  imports Main
begin

section \<open>Strings\<close>

text \<open>
  Python strings are sequences of code points. A \<^typ>\<open>char\<close> stands for a code point
  below 256; \<open>is_space\<close> lists the code points of that range for which Python's
  \<^verbatim>\<open>str.isspace\<close> holds, which are the ones \<^verbatim>\<open>str.strip()\<close> removes.
\<close>

definition is_space :: "char \<Rightarrow> bool" where
  "is_space c \<longleftrightarrow>
     c = CHR 0x09 \<or> c = CHR 0x0A \<or> c = CHR 0x0B \<or> c = CHR 0x0C \<or> c = CHR 0x0D \<or>
     c = CHR 0x1C \<or> c = CHR 0x1D \<or> c = CHR 0x1E \<or> c = CHR 0x1F \<or> c = CHR 0x20 \<or>
     c = CHR 0x85 \<or> c = CHR 0xA0"

definition lstrip :: "string \<Rightarrow> string" where
  "lstrip s = dropWhile is_space s"

definition rstrip :: "string \<Rightarrow> string" where
  "rstrip s = rev (dropWhile is_space (rev s))"

definition strip :: "string \<Rightarrow> string" where
  "strip s = rstrip (lstrip s)"

definition startswith :: "string \<Rightarrow> string \<Rightarrow> bool" where
  "startswith s p \<longleftrightarrow> take (length p) s = p"

text \<open>Truth value of an optional string: \<^verbatim>\<open>None\<close> and \<^verbatim>\<open>""\<close> are false.\<close>

definition truthy :: "string option \<Rightarrow> bool" where
  "truthy x = (case x of None \<Rightarrow> False | Some s \<Rightarrow> s \<noteq> [])"

text \<open>The test \<^verbatim>\<open>x and x.strip()\<close> on an optional string.\<close>

definition and_strip :: "string option \<Rightarrow> bool" where
  "and_strip x = (case x of None \<Rightarrow> False | Some s \<Rightarrow> s \<noteq> [] \<and> strip s \<noteq> [])"

text \<open>\<^verbatim>\<open>x.strip()\<close>, evaluated only where \<open>and_strip x\<close> holds.\<close>

definition stripped :: "string option \<Rightarrow> string" where
  "stripped x = (case x of None \<Rightarrow> [] | Some s \<Rightarrow> strip s)"

text \<open>Formatting inside an f-string: \<^verbatim>\<open>None\<close> prints as the word None, an integer in decimal.\<close>

definition fmt :: "string option \<Rightarrow> string" where
  "fmt x = (case x of None \<Rightarrow> ''None'' | Some s \<Rightarrow> s)"

fun digits :: "nat \<Rightarrow> string" where
  "digits n = (if n < 10 then [''0123456789'' ! n]
               else digits (n div 10) @ [''0123456789'' ! (n mod 10)])"

declare digits.simps [simp del]

definition str_int :: "int \<Rightarrow> string" where
  "str_int i = (if i < 0 then CHR ''-'' # digits (nat (- i)) else digits (nat i))"

section \<open>Element trees\<close>

text \<open>
  An \<^verbatim>\<open>xml.etree.ElementTree.Element\<close>: tag, attribute dictionary, text before the first
  child, tail after the end tag, and the children in document order.
\<close>

datatype element =
  Element (el_tag: string) (el_attrib: "(string \<times> string) list")
    (el_text: "string option") (el_tail: "string option") (el_children: "element list")

definition attrib_get :: "element \<Rightarrow> string \<Rightarrow> string option" where
  "attrib_get e k = map_of (el_attrib e) k"

section \<open>The record emitter\<close>

text \<open>
  The output file is modelled by the sequence of blocks written to it. A block holds the
  arguments of one effective call of \<^verbatim>\<open>write\<close> (here \<open>write_block\<close>, lines 45-56);
  \<open>block_text\<close> is the text that the nine \<^verbatim>\<open>output_file.write\<close> calls of that call
  produce, and \<open>file_contents\<close> the text of the whole file.
\<close>

record block =
  sp_status :: "string option"
  l1 :: string
  person_id :: "string option"
  text_type :: string
  original_doc :: "string option"
  utterance_id :: int
  block_body :: string

type_synonym sink = "block list"

definition nl :: string where
  "nl = [CHR 0x0A]"

definition block_text :: "block \<Rightarrow> string" where
  "block_text b =
     ''# sp_status = '' @ fmt (sp_status b) @ nl @
     ''# l1 = '' @ l1 b @ nl @
     ''# person_id = '' @ fmt (person_id b) @ nl @
     ''# discipline = NA'' @ nl @
     ''# text_type = '' @ text_type b @ nl @
     ''# original_doc = '' @ fmt (original_doc b) @ nl @
     ''# utterance_id = '' @ str_int (utterance_id b) @ nl @
     ''# sentence_id = TBD'' @ nl @
     block_body b @ nl @ nl"

definition file_contents :: "sink \<Rightarrow> string" where
  "file_contents out = concat (map block_text out)"

definition write_block ::
  "sink \<Rightarrow> string option \<Rightarrow> string option \<Rightarrow> string \<Rightarrow> string option \<Rightarrow> string \<Rightarrow>
   string option \<Rightarrow> int \<Rightarrow> sink" where
  "write_block output_file txt sp_status' l1' person_id' text_type' original_doc' utterance_id' =
     (if truthy txt
      then output_file @
        [\<lparr>sp_status = sp_status', l1 = l1', person_id = person_id', text_type = text_type',
          original_doc = original_doc', utterance_id = utterance_id', block_body = the txt\<rparr>]
      else output_file)"

section \<open>The utterance walker\<close>

text \<open>
  The list \<^verbatim>\<open>parent_tail\<close>. Its first seven entries are the output file (the one file of
  the walk, not stored here), the tail of the nested utterance, and the speaker and document
  fields of the enclosing utterance; \<open>pt_rest\<close> holds the entries appended from index 7 on.
  The walker only ever receives \<^verbatim>\<open>None\<close> or a list built this way.
\<close>

record pending =
  pt_tail :: "string option"
  pt_sp_status :: "string option"
  pt_l1 :: string
  pt_person_id :: "string option"
  pt_text_type :: string
  pt_original_doc :: "string option"
  pt_rest :: "string option list"

definition len_pending :: "pending \<Rightarrow> nat" where
  "len_pending p = 7 + length (pt_rest p)"

text \<open>
  The parts of \<^verbatim>\<open>process_utterance\<close> (lines 58-123), in the order of the source:
  \<open>leading_text\<close> is the write of the text of the utterance (lines 79-82);
  \<open>child_tail_of\<close> the value of \<^verbatim>\<open>child_tail\<close> (lines 87-90);
  \<open>parent_tail_copy_of\<close> the value of \<^verbatim>\<open>parent_tail_copy\<close> (lines 91-95);
  \<open>other_child\<close> the branches of the loop for a child whose tag does not start
  with U (lines 98-114); \<open>flush_parent_tail\<close> the write after the loop (lines 117-120).
  The \<^verbatim>\<open>append\<close> of the counter to \<^verbatim>\<open>parent_tail\<close> before that write changes a list
  that the caller built for this call alone and never reads again.
\<close>

definition leading_text ::
  "string option \<Rightarrow> string option \<Rightarrow> string \<Rightarrow> string option \<Rightarrow> string \<Rightarrow> string option \<Rightarrow>
   sink \<Rightarrow> int \<Rightarrow> sink \<times> int" where
  "leading_text tx sp_status' l1' person_id' text_type' original_doc' output_file utterance_id' =
     (if and_strip tx
      then (write_block output_file (Some (stripped tx)) sp_status' l1' person_id'
              text_type' original_doc' utterance_id', utterance_id' + 1)
      else (output_file, utterance_id'))"

definition child_tail_of :: "element \<Rightarrow> string option" where
  "child_tail_of child =
     (if and_strip (el_tail child) then Some (stripped (el_tail child)) else None)"

definition parent_tail_copy_of ::
  "pending option \<Rightarrow> string option \<Rightarrow> string option \<Rightarrow> string \<Rightarrow> string option \<Rightarrow> string \<Rightarrow>
   string option \<Rightarrow> pending" where
  "parent_tail_copy_of parent_tail child_tail sp_status' l1' person_id' text_type' original_doc' =
     (case parent_tail of
        Some pt \<Rightarrow> pt\<lparr>pt_rest := pt_rest pt @ [child_tail]\<rparr>
      | None \<Rightarrow>
          \<lparr>pt_tail = child_tail, pt_sp_status = sp_status', pt_l1 = l1',
           pt_person_id = person_id', pt_text_type = text_type',
           pt_original_doc = original_doc', pt_rest = []\<rparr>)"

definition other_child ::
  "element \<Rightarrow> string option \<Rightarrow> string \<Rightarrow> string option \<Rightarrow> string \<Rightarrow> string option \<Rightarrow>
   sink \<Rightarrow> int \<Rightarrow> sink \<times> int" where
  "other_child child sp_status' l1' person_id' text_type' original_doc' output_file utterance_id' =
     (if startswith (el_tag child) ''OVERLAP'' \<and> and_strip (el_text child) then
        (let overlap_text =
               (if and_strip (el_tail child)
                then stripped (el_text child) @ '' '' @ stripped (el_tail child)
                else stripped (el_text child))
         in (write_block output_file (Some overlap_text) sp_status' l1' person_id'
               text_type' original_doc' utterance_id', utterance_id' + 1))
      else if el_tag child = ''FOREIGN'' then (output_file, utterance_id')
      else if and_strip (el_tail child) then
        (write_block output_file (Some (stripped (el_tail child))) sp_status' l1' person_id'
           text_type' original_doc' utterance_id', utterance_id' + 1)
      else (output_file, utterance_id'))"

definition flush_parent_tail :: "pending option \<Rightarrow> sink \<times> int \<Rightarrow> sink \<times> int" where
  "flush_parent_tail parent_tail st =
     (case parent_tail of
        None \<Rightarrow> st
      | Some pt \<Rightarrow>
          if truthy (pt_tail pt) \<and> len_pending pt = 7
          then (write_block (fst st) (pt_tail pt) (pt_sp_status pt) (pt_l1 pt) (pt_person_id pt)
                  (pt_text_type pt) (pt_original_doc pt) (snd st), snd st + 1)
          else st)"

text \<open>
  \<open>process_utterance\<close> returns the output file and the counter; \<open>for_children\<close> is
  its loop over the children, with the speaker fields read from the utterance.
\<close>

fun process_utterance ::
    "element \<Rightarrow> sink \<Rightarrow> string \<Rightarrow> string option \<Rightarrow> int \<Rightarrow> pending option \<Rightarrow> sink \<times> int"
  and for_children ::
    "element list \<Rightarrow> string option \<Rightarrow> string \<Rightarrow> string option \<Rightarrow> string \<Rightarrow> string option \<Rightarrow>
     pending option \<Rightarrow> sink \<times> int \<Rightarrow> sink \<times> int"
where
  "process_utterance (Element tg attrs tx ta cs) output_file text_type' original_doc'
       utterance_id' parent_tail =
     flush_parent_tail parent_tail
       (for_children cs (map_of attrs ''NSS'')
          (case map_of attrs ''FLANG'' of Some v \<Rightarrow> v | None \<Rightarrow> ''English'')
          (map_of attrs ''WHO'') text_type' original_doc' parent_tail
          (leading_text tx (map_of attrs ''NSS'')
             (case map_of attrs ''FLANG'' of Some v \<Rightarrow> v | None \<Rightarrow> ''English'')
             (map_of attrs ''WHO'') text_type' original_doc' output_file utterance_id'))"
| "for_children [] sp_status' l1' person_id' text_type' original_doc' parent_tail st = st"
| "for_children (child # rest) sp_status' l1' person_id' text_type' original_doc' parent_tail st =
     for_children rest sp_status' l1' person_id' text_type' original_doc' parent_tail
       (if startswith (el_tag child) ''U''
        then process_utterance child (fst st) text_type' original_doc' (snd st)
               (Some (parent_tail_copy_of parent_tail (child_tail_of child)
                  sp_status' l1' person_id' text_type' original_doc'))
        else other_child child sp_status' l1' person_id' text_type' original_doc'
               (fst st) (snd st))"

section \<open>Parsing one document\<close>

text \<open>
  The body of the \<^verbatim>\<open>with\<close> block of \<^verbatim>\<open>parseXML\<close> (lines 141-150), with
  \<^verbatim>\<open>root.find('.//TERM[@TYPE="SPEECHEVENT"]')\<close> and \<^verbatim>\<open>root.findall('.//BODY/*')\<close>:
  \<open>descendants\<close> lists the elements below the root in document order, as
  \<^verbatim>\<open>Element.iter\<close> does without the element itself.
\<close>

fun descendants :: "element \<Rightarrow> element list" where
  "descendants (Element tg attrs tx ta cs) = concat (map (\<lambda>c. c # descendants c) cs)"

definition find_speechevent :: "element \<Rightarrow> element option" where
  "find_speechevent root =
     List.find (\<lambda>e. el_tag e = ''TERM'' \<and> attrib_get e ''TYPE'' = Some ''SPEECHEVENT'')
       (descendants root)"

definition text_type_of :: "element \<Rightarrow> string" where
  "text_type_of root =
     (case find_speechevent root of
        None \<Rightarrow> ''NA''
      | Some term_tag \<Rightarrow> if truthy (el_text term_tag) then the (el_text term_tag) else ''NA'')"

definition findall_body :: "element \<Rightarrow> element list" where
  "findall_body root =
     concat (map el_children (filter (\<lambda>e. el_tag e = ''BODY'') (descendants root)))"

fun for_utterances ::
  "element list \<Rightarrow> string \<Rightarrow> string option \<Rightarrow> sink \<times> int \<Rightarrow> sink \<times> int" where
  "for_utterances [] text_type' original_doc' st = st"
| "for_utterances (utterance # rest) text_type' original_doc' st =
     for_utterances rest text_type' original_doc'
       (if startswith (el_tag utterance) ''U''
        then process_utterance utterance (fst st) text_type' original_doc' (snd st) None
        else st)"

text \<open>The blocks written to the output file of a document whose tree is \<open>root\<close>.\<close>

definition document_output :: "element \<Rightarrow> sink" where
  "document_output root =
     fst (for_utterances (findall_body root) (text_type_of root) (attrib_get root ''ID'')
            ([], 1))"

section \<open>Files and the batch\<close>

text \<open>
  \<^verbatim>\<open>os.path.join\<close> with two arguments and the first component of \<^verbatim>\<open>os.path.splitext\<close>,
  as \<^verbatim>\<open>posixpath\<close> defines them. \<open>rfind\<close> is \<^verbatim>\<open>str.rfind\<close> for one character.
\<close>

definition os_path_join :: "string \<Rightarrow> string \<Rightarrow> string" where
  "os_path_join a b =
     (if startswith b ''/'' then b
      else if a = [] \<or> last a = CHR ''/'' then a @ b
      else a @ ''/'' @ b)"

definition rfind :: "string \<Rightarrow> char \<Rightarrow> int" where
  "rfind s c =
     (case filter (\<lambda>i. s ! i = c) (rev [0..<length s]) of [] \<Rightarrow> - 1 | i # _ \<Rightarrow> int i)"

definition splitext_root :: "string \<Rightarrow> string" where
  "splitext_root p =
     (let sepIndex = rfind p (CHR ''/''); dotIndex = rfind p (CHR ''.'')
      in if dotIndex > sepIndex \<and>
            list_ex (\<lambda>i. p ! i \<noteq> CHR ''.'') [nat (sepIndex + 1)..<nat dotIndex]
         then take (nat dotIndex) p else p)"

text \<open>
  The files written, by path, and the lines printed. \<open>parse_result\<close> is what
  \<^verbatim>\<open>ET.parse\<close> does on a file: it raises \<^verbatim>\<open>ParseError\<close> with a message or returns a tree.
  \<open>parseXML\<close> (lines 125-154) takes this outcome in place of the path it would parse.
  The file is opened only after \<^verbatim>\<open>ET.parse\<close> has returned.
\<close>

record world =
  files :: "string \<Rightarrow> string option"
  stdout :: "string list"

datatype parse_result = ParseError string | Tree element

definition parseXML :: "parse_result \<Rightarrow> string \<Rightarrow> string \<Rightarrow> world \<Rightarrow> world" where
  "parseXML xmlfile filename output_dir w =
     (case xmlfile of
        Tree root \<Rightarrow>
          (let output_path = os_path_join output_dir (filename @ ''_Parsed.txt'')
           in w\<lparr>files := (files w)(output_path \<mapsto> file_contents (document_output root)),
                stdout := stdout w @ [''Created text file: '' @ output_path]\<rparr>)
      | ParseError e \<Rightarrow>
          w\<lparr>stdout := stdout w @ [''Parse error in file '' @ filename @ '': '' @ e]\<rparr>)"

text \<open>
  An entry of \<^verbatim>\<open>os.listdir(DIR)\<close>: a name, and either no regular file under it or a file
  with the outcome of parsing it. \<open>main_loop\<close> is the loop of \<^verbatim>\<open>main\<close>; the two
  definitions of \<^verbatim>\<open>main\<close> in the source (lines 156-169 and 175-188) differ in the
  output directory only.
\<close>

datatype dir_entry = NotAFile | IsFile parse_result

definition DIR :: string where
  "DIR = ''XMLs''"

fun main_loop :: "string \<Rightarrow> (string \<times> dir_entry) list \<Rightarrow> world \<Rightarrow> world" where
  "main_loop output_dir [] w = w"
| "main_loop output_dir ((filename, entry) # rest) w =
     main_loop output_dir rest
       (case entry of
          IsFile xmlfile \<Rightarrow> parseXML xmlfile (splitext_root filename) output_dir w
        | NotAFile \<Rightarrow>
            w\<lparr>stdout := stdout w @
                 [''Error: unable to open file '' @ os_path_join DIR filename]\<rparr>)"

definition main :: "(string \<times> dir_entry) list \<Rightarrow> world \<Rightarrow> world" where
  "main listing w =
     (let w' = main_loop ''XML_Data'' listing w
      in w'\<lparr>stdout := stdout w' @ [''Parsed text files created successfully'']\<rparr>)"

definition main_XMLs_Parsed :: "(string \<times> dir_entry) list \<Rightarrow> world \<Rightarrow> world" where
  "main_XMLs_Parsed listing w =
     (let w' = main_loop ''XMLs_Parsed'' listing w
      in w'\<lparr>stdout := stdout w' @ [''Parsed text files created successfully'']\<rparr>)"

section \<open>Notions used to state the properties\<close>

text \<open>A string is trimmed when it is not empty and neither starts nor ends with white space.\<close>

definition trimmed :: "string \<Rightarrow> bool" where
  "trimmed s \<longleftrightarrow> s \<noteq> [] \<and> \<not> is_space (hd s) \<and> \<not> is_space (last s)"

text \<open>
  \<open>emits Q out n st\<close>: the state \<open>st\<close> is reached from the output file \<open>out\<close> and the
  counter \<open>n\<close> by appending blocks numbered \<open>n\<close>, \<open>n + 1\<close>, ... whose texts satisfy \<open>Q\<close>,
  the counter having advanced by the number of blocks.
\<close>

definition emits :: "(string \<Rightarrow> bool) \<Rightarrow> sink \<Rightarrow> int \<Rightarrow> sink \<times> int \<Rightarrow> bool" where
  "emits Q out n st \<longleftrightarrow>
     (\<exists>recs. st = (out @ recs, n + int (length recs)) \<and>
        (\<forall>k<length recs. utterance_id (recs ! k) = n + int k) \<and>
        (\<forall>b\<in>set recs. Q (block_body b)))"

text \<open>A pending record is fit for \<open>Q\<close> when the tail it holds, if any, satisfies \<open>Q\<close>.\<close>

definition pt_ok :: "(string \<Rightarrow> bool) \<Rightarrow> pending option \<Rightarrow> bool" where
  "pt_ok Q parent_tail \<longleftrightarrow>
     (case parent_tail of None \<Rightarrow> True
      | Some pt \<Rightarrow> (case pt_tail pt of None \<Rightarrow> True | Some t \<Rightarrow> Q t))"

text \<open>A pending record that cannot be flushed has no influence on the walk.\<close>

definition no_flush :: "pending \<Rightarrow> bool" where
  "no_flush q \<longleftrightarrow> \<not> (truthy (pt_tail q) \<and> len_pending q = 7)"

text \<open>
  For stating that the text of FOREIGN elements is never read: \<open>retext_foreign f\<close>
  replaces the text of every element tagged FOREIGN in a tree by its image under \<open>f\<close>
  and leaves everything else as it is.
\<close>

fun retext_foreign :: "(string option \<Rightarrow> string option) \<Rightarrow> element \<Rightarrow> element" where
  "retext_foreign f (Element tg attrs tx ta cs) =
     Element tg attrs (if tg = ''FOREIGN'' then f tx else tx) ta (map (retext_foreign f) cs)"

text \<open>For counting: the entries that parse, the entries that do not, and their lines.\<close>

definition well_formed :: "string \<times> dir_entry \<Rightarrow> bool" where
  "well_formed x = (case snd x of IsFile (Tree root) \<Rightarrow> True | _ \<Rightarrow> False)"

definition malformed :: "string \<times> dir_entry \<Rightarrow> bool" where
  "malformed x = (case snd x of IsFile (ParseError e) \<Rightarrow> True | _ \<Rightarrow> False)"

definition created_line :: "string \<Rightarrow> bool" where
  "created_line s = startswith s ''Created text file: ''"

definition parse_error_line :: "string \<Rightarrow> bool" where
  "parse_error_line s = startswith s ''Parse error in file ''"

section \<open>Facts about stripping\<close>

lemma rstrip_decomp: "\<exists>ws. t = rstrip t @ ws"
proof -
  have "rev (takeWhile is_space (rev t) @ dropWhile is_space (rev t)) = t"
    by (simp only: takeWhile_dropWhile_id rev_rev_ident)
  then have "t = rstrip t @ rev (takeWhile is_space (rev t))"
    by (simp only: rev_append rstrip_def)
  then show ?thesis ..
qed

lemma strip_trimmed:
  assumes "strip s \<noteq> []"
  shows "trimmed (strip s)"
proof -
  let ?t = "lstrip s"
  from assms have ne: "rstrip ?t \<noteq> []" by (simp add: strip_def)
  obtain ws where dec: "?t = rstrip ?t @ ws" using rstrip_decomp by blast
  from ne dec have t_ne: "?t \<noteq> []" by auto
  then have "\<not> is_space (hd ?t)"
    unfolding lstrip_def by (rule hd_dropWhile)
  moreover from dec ne have "hd ?t = hd (rstrip ?t)"
    by (metis hd_append2)
  ultimately have h: "\<not> is_space (hd (strip s))" by (simp add: strip_def)
  from ne have "dropWhile is_space (rev ?t) \<noteq> []" by (simp add: rstrip_def)
  then have "\<not> is_space (hd (dropWhile is_space (rev ?t)))" by (rule hd_dropWhile)
  with ne have l: "\<not> is_space (last (strip s))"
    by (simp add: strip_def rstrip_def last_rev)
  from assms h l show ?thesis by (simp add: trimmed_def)
qed

lemma trimmed_strip_id:
  assumes "trimmed s"
  shows "strip s = s"
proof -
  from assms obtain c cs where s: "s = c # cs" and c: "\<not> is_space c"
    by (cases s) (auto simp: trimmed_def)
  then have l: "lstrip s = s" by (simp add: lstrip_def)
  from assms have "rev s \<noteq> []" "\<not> is_space (hd (rev s))"
    by (auto simp: trimmed_def hd_rev)
  then have "dropWhile is_space (rev s) = rev s"
    by (cases "rev s") auto
  with l show ?thesis by (simp add: strip_def rstrip_def)
qed

lemma trimmed_join:
  assumes "trimmed a" "trimmed b"
  shows "trimmed (a @ '' '' @ b)"
  using assms by (auto simp: trimmed_def)

lemma and_strip_trimmed: "and_strip x \<Longrightarrow> trimmed (stripped x)"
  by (auto simp: and_strip_def stripped_def strip_trimmed split: option.splits)

lemma trimmed_not_blank: "trimmed s \<Longrightarrow> \<exists>c\<in>set s. \<not> is_space c"
  by (cases s) (auto simp: trimmed_def)

section \<open>What one call of the walker appends\<close>

lemma emits_refl: "emits Q out n (out, n)"
  by (simp add: emits_def)

lemma emits_same: "emits Q (fst st) (snd st) st"
  by (cases st) (simp add: emits_refl)

lemma emits_trans:
  assumes "emits Q out n st" and "emits Q (fst st) (snd st) st'"
  shows "emits Q out n st'"
proof -
  from assms(1) obtain r1 where
    st: "st = (out @ r1, n + int (length r1))" and
    i1: "\<forall>k<length r1. utterance_id (r1 ! k) = n + int k" and
    q1: "\<forall>b\<in>set r1. Q (block_body b)"
    by (auto simp: emits_def)
  from assms(2) st obtain r2 where
    st': "st' = ((out @ r1) @ r2, (n + int (length r1)) + int (length r2))" and
    i2: "\<forall>k<length r2. utterance_id (r2 ! k) = (n + int (length r1)) + int k" and
    q2: "\<forall>b\<in>set r2. Q (block_body b)"
    by (auto simp: emits_def)
  have ids: "\<forall>k<length (r1 @ r2). utterance_id ((r1 @ r2) ! k) = n + int k"
  proof (intro allI impI)
    fix k assume k: "k < length (r1 @ r2)"
    show "utterance_id ((r1 @ r2) ! k) = n + int k"
    proof (cases "k < length r1")
      case True
      with i1 show ?thesis by (simp add: nth_append)
    next
      case False
      with k have "k - length r1 < length r2" by simp
      with i2 have "utterance_id (r2 ! (k - length r1)) = n + int (length r1) + int (k - length r1)"
        by blast
      with False show ?thesis by (simp add: nth_append)
    qed
  qed
  from q1 q2 have qs: "\<forall>b\<in>set (r1 @ r2). Q (block_body b)" by auto
  from st' have "st' = (out @ (r1 @ r2), n + int (length (r1 @ r2)))" by simp
  with ids qs show ?thesis unfolding emits_def by blast
qed

lemma emits_write:
  assumes "t \<noteq> []" and "Q t"
  shows "emits Q out n (write_block out (Some t) sp l p tt od n, n + 1)"
proof -
  let ?b = "\<lparr>sp_status = sp, l1 = l, person_id = p, text_type = tt, original_doc = od,
             utterance_id = n, block_body = t\<rparr>"
  from assms(1) have "(write_block out (Some t) sp l p tt od n, n + 1) =
      (out @ [?b], n + int (length [?b]))"
    by (simp add: write_block_def truthy_def)
  moreover have "\<forall>k<length [?b]. utterance_id ([?b] ! k) = n + int k" by simp
  moreover from assms(2) have "\<forall>b\<in>set [?b]. Q (block_body b)" by simp
  ultimately show ?thesis unfolding emits_def by blast
qed

lemma and_strip_nonempty: "and_strip x \<Longrightarrow> stripped x \<noteq> []"
  by (auto simp: and_strip_def stripped_def split: option.splits)

lemma emits_leading_text:
  assumes "\<And>x. and_strip x \<Longrightarrow> Q (stripped x)"
  shows "emits Q out n (leading_text tx sp l p tt od out n)"
  using assms by (simp add: leading_text_def emits_refl emits_write and_strip_nonempty)

lemma emits_other_child:
  assumes "\<And>x. and_strip x \<Longrightarrow> Q (stripped x)"
    and "\<And>a b. and_strip a \<Longrightarrow> and_strip b \<Longrightarrow> Q (stripped a @ '' '' @ stripped b)"
  shows "emits Q out n (other_child child sp l p tt od out n)"
  using assms
  by (simp add: other_child_def Let_def emits_refl emits_write and_strip_nonempty)

lemma emits_flush:
  assumes "pt_ok Q parent_tail"
  shows "emits Q (fst st) (snd st) (flush_parent_tail parent_tail st)"
proof (cases parent_tail)
  case None
  then show ?thesis by (simp add: flush_parent_tail_def emits_same)
next
  case (Some pt)
  show ?thesis
  proof (cases "truthy (pt_tail pt) \<and> len_pending pt = 7")
    case True
    then obtain t where t: "pt_tail pt = Some t" "t \<noteq> []"
      by (auto simp: truthy_def split: option.splits)
    with assms Some have "Q t" by (simp add: pt_ok_def)
    with t True Some show ?thesis
      by (simp add: flush_parent_tail_def emits_write)
  next
    case False
    with Some show ?thesis by (auto simp: flush_parent_tail_def emits_same)
  qed
qed

lemma pt_ok_copy:
  assumes "\<And>x. and_strip x \<Longrightarrow> Q (stripped x)" and "pt_ok Q parent_tail"
  shows "pt_ok Q (Some (parent_tail_copy_of parent_tail (child_tail_of child) sp l p tt od))"
  using assms
  by (auto simp: pt_ok_def parent_tail_copy_of_def child_tail_of_def split: option.splits)

lemma for_children_emits:
  assumes Qs: "\<And>x. and_strip x \<Longrightarrow> Q (stripped x)"
    and Qj: "\<And>a b. and_strip a \<Longrightarrow> and_strip b \<Longrightarrow> Q (stripped a @ '' '' @ stripped b)"
    and IH: "\<And>c out n pt. c \<in> set cs \<Longrightarrow> pt_ok Q pt \<Longrightarrow>
               emits Q out n (process_utterance c out tt od n pt)"
    and ok: "pt_ok Q parent_tail"
  shows "emits Q (fst st) (snd st) (for_children cs sp l p tt od parent_tail st)"
  using IH
proof (induction cs arbitrary: st)
  case Nil
  show ?case by (simp add: emits_same)
next
  case (Cons child rest)
  let ?st' = "if startswith (el_tag child) ''U''
        then process_utterance child (fst st) tt od (snd st)
               (Some (parent_tail_copy_of parent_tail (child_tail_of child) sp l p tt od))
        else other_child child sp l p tt od (fst st) (snd st)"
  have step: "emits Q (fst st) (snd st) ?st'"
  proof (cases "startswith (el_tag child) ''U''")
    case True
    have "emits Q (fst st) (snd st) (process_utterance child (fst st) tt od (snd st)
               (Some (parent_tail_copy_of parent_tail (child_tail_of child) sp l p tt od)))"
      by (rule Cons.prems) (simp, rule pt_ok_copy [where Q = Q, OF Qs ok])
    with True show ?thesis by simp
  next
    case False
    then show ?thesis by (simp add: emits_other_child [where Q = Q, OF Qs Qj])
  qed
  have "emits Q (fst ?st') (snd ?st') (for_children rest sp l p tt od parent_tail ?st')"
    by (rule Cons.IH) (rule Cons.prems, simp_all)
  with step have "emits Q (fst st) (snd st) (for_children rest sp l p tt od parent_tail ?st')"
    by (rule emits_trans)
  then show ?case by simp
qed

lemma process_utterance_emits:
  assumes Qs: "\<And>x. and_strip x \<Longrightarrow> Q (stripped x)"
    and Qj: "\<And>a b. and_strip a \<Longrightarrow> and_strip b \<Longrightarrow> Q (stripped a @ '' '' @ stripped b)"
  shows "pt_ok Q parent_tail \<Longrightarrow> emits Q out n (process_utterance u out tt od n parent_tail)"
proof (induction u arbitrary: out n parent_tail)
  case (Element tg attrs tx ta cs)
  let ?sp = "map_of attrs ''NSS''"
  let ?l = "case map_of attrs ''FLANG'' of Some v \<Rightarrow> v | None \<Rightarrow> ''English''"
  let ?p = "map_of attrs ''WHO''"
  let ?st1 = "leading_text tx ?sp ?l ?p tt od out n"
  let ?st2 = "for_children cs ?sp ?l ?p tt od parent_tail ?st1"
  have a: "emits Q out n ?st1" by (rule emits_leading_text [where Q = Q, OF Qs])
  have b: "emits Q (fst ?st1) (snd ?st1) ?st2"
  proof (rule for_children_emits [where Q = Q])
    show "\<And>x. and_strip x \<Longrightarrow> Q (stripped x)" by (rule Qs)
    show "\<And>a b. and_strip a \<Longrightarrow> and_strip b \<Longrightarrow> Q (stripped a @ '' '' @ stripped b)"
      by (rule Qj)
    show "\<And>c out n pt. c \<in> set cs \<Longrightarrow> pt_ok Q pt \<Longrightarrow>
            emits Q out n (process_utterance c out tt od n pt)"
      by (rule Element.IH)
    show "pt_ok Q parent_tail" by (rule Element.prems)
  qed
  have c: "emits Q (fst ?st2) (snd ?st2) (flush_parent_tail parent_tail ?st2)"
    by (rule emits_flush [OF Element.prems])
  from a b have "emits Q out n ?st2" by (rule emits_trans)
  from this c have "emits Q out n (flush_parent_tail parent_tail ?st2)" by (rule emits_trans)
  then show ?case by simp
qed

lemma for_utterances_emits:
  assumes Qs: "\<And>x. and_strip x \<Longrightarrow> Q (stripped x)"
    and Qj: "\<And>a b. and_strip a \<Longrightarrow> and_strip b \<Longrightarrow> Q (stripped a @ '' '' @ stripped b)"
  shows "emits Q (fst st) (snd st) (for_utterances us tt od st)"
proof (induction us arbitrary: st)
  case Nil
  show ?case by (simp add: emits_same)
next
  case (Cons u us)
  let ?st' = "if startswith (el_tag u) ''U''
              then process_utterance u (fst st) tt od (snd st) None else st"
  have "emits Q (fst st) (snd st) ?st'"
    using process_utterance_emits [where Q = Q, OF Qs Qj, of None "fst st" "snd st" u tt od]
    by (simp add: pt_ok_def emits_same)
  moreover have "emits Q (fst ?st') (snd ?st') (for_utterances us tt od ?st')"
    by (rule Cons.IH)
  ultimately have "emits Q (fst st) (snd st) (for_utterances us tt od ?st')"
    by (rule emits_trans)
  then show ?case by simp
qed

section \<open>Utterance identifiers\<close>

lemma emits_ids_map:
  assumes "\<forall>k<length recs. utterance_id (recs ! k) = n + int k"
  shows "map utterance_id recs = map (\<lambda>k. n + int k) [0..<length recs]"
  using assms by (intro nth_equalityI) simp_all

text \<open>
  Claim C1. The utterance ids of the blocks written for a document are 1, 2, 3, ... in the
  order of writing. More generally, every call of the walker leaves the blocks already
  written in place, appends blocks numbered from its starting counter upwards without gap
  or repetition, and returns the starting counter plus the number of blocks it appended:
  a call that writes nothing returns the counter unchanged.
\<close>

theorem utterance_ids_consecutive:
  "map utterance_id (document_output root) =
     map (\<lambda>k. 1 + int k) [0..<length (document_output root)] \<and>
   (case process_utterance u out tt od n parent_tail of
      (out', n') \<Rightarrow>
        take (length out) out' = out \<and>
        n' = n + int (length out' - length out) \<and>
        map utterance_id (drop (length out) out') =
          map (\<lambda>k. n + int k) [0..<length out' - length out])"
proof
  have "emits (\<lambda>_. True) [] 1
          (for_utterances (findall_body root) (text_type_of root) (attrib_get root ''ID'')
             ([], 1))"
    using for_utterances_emits [where Q = "\<lambda>_. True" and st = "([], 1)"] by simp
  then obtain recs where
    r: "for_utterances (findall_body root) (text_type_of root) (attrib_get root ''ID'')
          ([], 1) = (recs, 1 + int (length recs))" and
    ids: "\<forall>k<length recs. utterance_id (recs ! k) = 1 + int k"
    by (auto simp: emits_def)
  from r have d: "document_output root = recs" by (simp add: document_output_def)
  from ids have "map utterance_id recs = map (\<lambda>k. 1 + int k) [0..<length recs]"
    by (rule emits_ids_map)
  with d show "map utterance_id (document_output root) =
     map (\<lambda>k. 1 + int k) [0..<length (document_output root)]" by simp
next
  have "emits (\<lambda>_. True) out n (process_utterance u out tt od n parent_tail)"
    using process_utterance_emits [where Q = "\<lambda>_. True" and parent_tail = parent_tail]
    by (simp add: pt_ok_def split: option.splits)
  then obtain recs where
    r: "process_utterance u out tt od n parent_tail = (out @ recs, n + int (length recs))" and
    ids: "\<forall>k<length recs. utterance_id (recs ! k) = n + int k"
    by (auto simp: emits_def)
  from ids have "map utterance_id recs = map (\<lambda>k. n + int k) [0..<length recs]"
    by (rule emits_ids_map)
  with r show "case process_utterance u out tt od n parent_tail of
      (out', n') \<Rightarrow>
        take (length out) out' = out \<and>
        n' = n + int (length out' - length out) \<and>
        map utterance_id (drop (length out) out') =
          map (\<lambda>k. n + int k) [0..<length out' - length out]"
    by simp
qed

section \<open>The branches of the loop over the children\<close>

lemmas eval_defs =
  startswith_def and_strip_def stripped_def strip_def lstrip_def rstrip_def is_space_def
  truthy_def child_tail_of_def parent_tail_copy_of_def other_child_def leading_text_def
  flush_parent_tail_def len_pending_def write_block_def



lemma foreign_not_U: "\<not> startswith ''FOREIGN'' ''U''"
  by (simp add: startswith_def)

lemma foreign_not_overlap: "\<not> startswith ''FOREIGN'' ''OVERLAP''"
  by (simp add: startswith_def)

lemma for_children_append:
  "for_children (xs @ ys) sp l p tt od parent_tail st =
     for_children ys sp l p tt od parent_tail (for_children xs sp l p tt od parent_tail st)"
  by (induction xs arbitrary: st) simp_all

lemma for_children_foreign:
  assumes "el_tag child = ''FOREIGN''"
  shows "for_children (child # rest) sp l p tt od parent_tail st =
         for_children rest sp l p tt od parent_tail st"
  using assms by (simp add: other_child_def foreign_not_U foreign_not_overlap)

section \<open>Pending records and nested utterances\<close>

lemma no_flush_copy: "no_flush (parent_tail_copy_of (Some q) t sp l p tt od)"
  by (simp add: no_flush_def parent_tail_copy_of_def len_pending_def)

lemma flush_no_flush: "no_flush q \<Longrightarrow> flush_parent_tail (Some q) st = st"
  by (auto simp: flush_parent_tail_def no_flush_def)

lemma for_children_pending_any:
  assumes IH: "\<And>c out n q q'. c \<in> set cs \<Longrightarrow> no_flush q \<Longrightarrow> no_flush q' \<Longrightarrow>
     process_utterance c out tt od n (Some q) = process_utterance c out tt od n (Some q')"
  shows "for_children cs sp l p tt od (Some q) st = for_children cs sp l p tt od (Some q') st"
  using IH
proof (induction cs arbitrary: st)
  case Nil
  show ?case by simp
next
  case (Cons child rest)
  have "process_utterance child (fst st) tt od (snd st)
          (Some (parent_tail_copy_of (Some q) (child_tail_of child) sp l p tt od)) =
        process_utterance child (fst st) tt od (snd st)
          (Some (parent_tail_copy_of (Some q') (child_tail_of child) sp l p tt od))"
    by (rule Cons.prems) (simp_all add: no_flush_copy)
  moreover have "\<And>s. for_children rest sp l p tt od (Some q) s =
                     for_children rest sp l p tt od (Some q') s"
    by (rule Cons.IH) (rule Cons.prems, simp_all)
  ultimately show ?case by simp
qed

lemma process_utterance_pending_any:
  "no_flush q \<Longrightarrow> no_flush q' \<Longrightarrow>
   process_utterance u out tt od n (Some q) = process_utterance u out tt od n (Some q')"
proof (induction u arbitrary: out n q q')
  case (Element tg attrs tx ta cs)
  have "\<And>sp l p st. for_children cs sp l p tt od (Some q) st =
                      for_children cs sp l p tt od (Some q') st"
    by (rule for_children_pending_any) (rule Element.IH)
  with Element.prems show ?case
    by (simp add: flush_no_flush)
qed



lemma process_utterance_ignores_own_tail:
  "process_utterance (Element tg attrs tx ta cs) out tt od n parent_tail =
   process_utterance (Element tg attrs tx None cs) out tt od n parent_tail"
  by simp



text \<open>
  In a node that was itself entered with a pending record, the tail of a nested
  utterance child has no effect at all: the walk is the same as for the child without
  its tail.
\<close>

lemma nested_tail_ignored_under_pending:
  assumes "startswith tg ''U''"
  shows "for_children (Element tg attrs tx ta cs # rest) sp l p tt od (Some q) st =
         for_children (Element tg attrs tx None cs # rest) sp l p tt od (Some q) st"
proof -
  have a: "\<And>pt. process_utterance (Element tg attrs tx ta cs) (fst st) tt od (snd st) pt =
                 process_utterance (Element tg attrs tx None cs) (fst st) tt od (snd st) pt"
    by (rule process_utterance_ignores_own_tail)
  have b: "process_utterance (Element tg attrs tx None cs) (fst st) tt od (snd st)
             (Some (parent_tail_copy_of (Some q) (child_tail_of (Element tg attrs tx ta cs))
                sp l p tt od)) =
           process_utterance (Element tg attrs tx None cs) (fst st) tt od (snd st)
             (Some (parent_tail_copy_of (Some q) (child_tail_of (Element tg attrs tx None cs))
                sp l p tt od))"
    by (rule process_utterance_pending_any) (rule no_flush_copy)+
  show ?thesis
    using assms by (simp only: for_children.simps element.sel if_True a b)
qed

text \<open>
  The scenario of the specification, for a nested utterance one level deep: three blocks,
  the tail of the nested utterance last and under the speaker of the enclosing utterance.
\<close>

lemma nested_tail_scenario:
  "process_utterance
     (Element ''U1'' [(''WHO'', ''S1'')] (Some ''hello there'') None
        [Element ''U2'' [(''WHO'', ''S2'')] (Some ''hi'') (Some ''thanks'') []])
     [] ''NA'' (Some ''doc'') 1 None =
   ([\<lparr>sp_status = None, l1 = ''English'', person_id = Some ''S1'', text_type = ''NA'',
      original_doc = Some ''doc'', utterance_id = 1, block_body = ''hello there''\<rparr>,
     \<lparr>sp_status = None, l1 = ''English'', person_id = Some ''S2'', text_type = ''NA'',
      original_doc = Some ''doc'', utterance_id = 2, block_body = ''hi''\<rparr>,
     \<lparr>sp_status = None, l1 = ''English'', person_id = Some ''S1'', text_type = ''NA'',
      original_doc = Some ''doc'', utterance_id = 3, block_body = ''thanks''\<rparr>], 4)"
  by (simp add: eval_defs)

text \<open>
  Claim C2. The tail after every nested utterance is to be written as a block under the
  speaker of the enclosing utterance, right after the blocks of the nested utterance.
  The walker does not do so for an utterance nested two deep: in the utterance of S1
  below, the utterance of S3 lies inside the utterance of S2 and is followed there by the
  tail ``lost'', which belongs to S2. The walk writes the text of S3 and nothing else;
  no block holds the tail, and the counter ends at 2.
\<close>

theorem nested_tail_lost_two_deep:
  "process_utterance
     (Element ''U1'' [(''WHO'', ''S1'')] None None
        [Element ''U2'' [(''WHO'', ''S2'')] None None
           [Element ''U3'' [(''WHO'', ''S3'')] (Some ''x'') (Some ''lost'') []]])
     [] ''NA'' (Some ''doc'') 1 None =
   ([\<lparr>sp_status = None, l1 = ''English'', person_id = Some ''S3'', text_type = ''NA'',
      original_doc = Some ''doc'', utterance_id = 1, block_body = ''x''\<rparr>], 2)"
  by (simp add: eval_defs)



section \<open>Overlap spans\<close>





section \<open>Foreign spans\<close>

text \<open>
  Claim C8. A child whose tag is exactly FOREIGN is skipped as a whole, its tail
  included: removing the child, with its text, tail and children, from the children of a
  node changes neither the blocks written nor the counter returned.
\<close>

theorem foreign_child_skipped_with_tail:
  assumes "el_tag child = ''FOREIGN''"
  shows "process_utterance (Element tg attrs tx ta (pre @ child # post)) out tt od n
           parent_tail =
         process_utterance (Element tg attrs tx ta (pre @ post)) out tt od n parent_tail"
proof -
  have skip: "\<And>sp l p st. for_children (child # post) sp l p tt od parent_tail st =
                for_children post sp l p tt od parent_tail st"
    using assms by (rule for_children_foreign)
  show ?thesis
    by (simp only: process_utterance.simps for_children_append skip)
qed

theorem foreign_child_skipped_with_tail_witness:
  "el_tag (Element ''FOREIGN'' [] (Some ''bonjour'') (Some ''as they say'') []) = ''FOREIGN'' \<and>
   process_utterance
     (Element ''U1'' [(''WHO'', ''S1'')] None None
        [Element ''FOREIGN'' [] (Some ''bonjour'') (Some ''as they say'') []])
     [] ''NA'' (Some ''doc'') 1 None = ([], 1)"
  using foreign_child_skipped_with_tail
    [of "Element ''FOREIGN'' [] (Some ''bonjour'') (Some ''as they say'') []" "''U1''"
        "[(''WHO'', ''S1'')]" None None "[]" "[]" "[]" "''NA''" "Some ''doc''" 1 None]
  by (simp add: eval_defs)

lemma retext_tag [simp]: "el_tag (retext_foreign f e) = el_tag e"
  by (cases e) simp

lemma retext_attrib [simp]: "el_attrib (retext_foreign f e) = el_attrib e"
  by (cases e) simp

lemma retext_tail [simp]: "el_tail (retext_foreign f e) = el_tail e"
  by (cases e) simp

lemma retext_children [simp]:
  "el_children (retext_foreign f e) = map (retext_foreign f) (el_children e)"
  by (cases e) simp

lemma retext_text: "el_tag e \<noteq> ''FOREIGN'' \<Longrightarrow> el_text (retext_foreign f e) = el_text e"
  by (cases e) simp

lemma other_child_retext:
  "other_child (retext_foreign f c) sp l p tt od out n = other_child c sp l p tt od out n"
proof (cases "el_tag c = ''FOREIGN''")
  case True
  then show ?thesis by (simp add: other_child_def foreign_not_overlap)
next
  case False
  then show ?thesis by (simp add: other_child_def retext_text)
qed

lemma for_children_retext:
  assumes IH: "\<And>c out n pt. c \<in> set cs \<Longrightarrow> startswith (el_tag c) ''U'' \<Longrightarrow>
     process_utterance (retext_foreign f c) out tt od n pt = process_utterance c out tt od n pt"
  shows "for_children (map (retext_foreign f) cs) sp l p tt od parent_tail st =
         for_children cs sp l p tt od parent_tail st"
  using IH
proof (induction cs arbitrary: st)
  case Nil
  show ?case by simp
next
  case (Cons child rest)
  have tl: "\<And>s. for_children (map (retext_foreign f) rest) sp l p tt od parent_tail s =
                 for_children rest sp l p tt od parent_tail s"
    by (rule Cons.IH) (rule Cons.prems, simp_all)
  show ?case
  proof (cases "startswith (el_tag child) ''U''")
    case True
    then have "\<And>pt. process_utterance (retext_foreign f child) (fst st) tt od (snd st) pt =
                     process_utterance child (fst st) tt od (snd st) pt"
      by (intro Cons.prems) simp_all
    with True tl show ?thesis by (simp add: child_tail_of_def)
  next
    case False
    with tl show ?thesis by (simp add: other_child_retext)
  qed
qed

lemma utterance_not_foreign: "startswith tg ''U'' \<Longrightarrow> tg \<noteq> ''FOREIGN''"
  by (auto simp: startswith_def)

lemma process_utterance_retext:
  "startswith (el_tag u) ''U'' \<Longrightarrow>
   process_utterance (retext_foreign f u) out tt od n parent_tail =
   process_utterance u out tt od n parent_tail"
proof (induction u arbitrary: out n parent_tail)
  case (Element tg attrs tx ta cs)
  have "\<And>sp l p st. for_children (map (retext_foreign f) cs) sp l p tt od parent_tail st =
                      for_children cs sp l p tt od parent_tail st"
    by (rule for_children_retext) (rule Element.IH)
  moreover from Element.prems have "tg \<noteq> ''FOREIGN''"
    by (simp add: utterance_not_foreign)
  ultimately show ?case by simp
qed

lemma for_utterances_retext:
  "for_utterances (map (retext_foreign f) us) tt od st = for_utterances us tt od st"
  by (induction us arbitrary: st) (simp_all add: process_utterance_retext)

lemma descendants_retext:
  "descendants (retext_foreign f e) = map (retext_foreign f) (descendants e)"
proof (induction e)
  case (Element tg attrs tx ta cs)
  then show ?case by (simp add: map_concat comp_def cong: map_cong)
qed

lemma findall_body_retext:
  "findall_body (retext_foreign f root) = map (retext_foreign f) (findall_body root)"
  by (simp add: findall_body_def descendants_retext filter_map comp_def map_concat)

lemma find_over_map: "List.find P (map g xs) = map_option g (List.find (\<lambda>x. P (g x)) xs)"
  by (induction xs) simp_all

lemma find_speechevent_retext:
  "find_speechevent (retext_foreign f root) =
     map_option (retext_foreign f) (find_speechevent root)"
  by (simp add: find_speechevent_def descendants_retext find_over_map attrib_get_def)

lemma find_speechevent_tag: "find_speechevent root = Some e \<Longrightarrow> el_tag e = ''TERM''"
  by (auto simp: find_speechevent_def find_Some_iff)

lemma text_type_of_retext: "text_type_of (retext_foreign f root) = text_type_of root"
proof (cases "find_speechevent root")
  case None
  then show ?thesis by (simp add: text_type_of_def find_speechevent_retext)
next
  case (Some e)
  then have "el_tag e \<noteq> ''FOREIGN''" by (auto dest: find_speechevent_tag)
  then have "el_text (retext_foreign f e) = el_text e" by (rule retext_text)
  with Some show ?thesis by (simp add: text_type_of_def find_speechevent_retext)
qed

text \<open>
  Claim C5. The blocks written for a document do not depend on the text of its FOREIGN
  elements: whatever that text is replaced by, empty or not, the output is the same.
\<close>

theorem foreign_text_never_written:
  "document_output (retext_foreign f root) = document_output root"
  by (simp add: document_output_def findall_body_retext text_type_of_retext
      for_utterances_retext attrib_get_def)

section \<open>The emitter and blank text\<close>

lemma file_contents_append: "file_contents (out @ bs) = file_contents out @ file_contents bs"
  by (simp add: file_contents_def)

lemma for_utterances_trimmed:
  "emits trimmed (fst st) (snd st) (for_utterances us tt od st)"
proof (rule for_utterances_emits)
  show "\<And>x. and_strip x \<Longrightarrow> trimmed (stripped x)" by (rule and_strip_trimmed)
  show "\<And>a b. and_strip a \<Longrightarrow> and_strip b \<Longrightarrow> trimmed (stripped a @ '' '' @ stripped b)"
    by (intro trimmed_join and_strip_trimmed)
qed

lemma document_output_trimmed:
  "\<forall>b\<in>set (document_output root). trimmed (block_body b)"
  using for_utterances_trimmed
    [of "([], 1)" "findall_body root" "text_type_of root" "attrib_get root ''ID''"]
  by (auto simp: emits_def document_output_def)

text \<open>
  Claim C4 (as amended). \<open>write\<close> writes nothing exactly when the text is absent or
  the empty string; any other text, blank or not, is written as one block that ends with
  the text as it was passed, untrimmed, and an empty line. Trimming and the rejection of
  blank text happen in the walker before it calls \<open>write\<close>: every block written for a
  document has a non-empty text that is its own trimmed form and so holds a character
  that is not white space.
\<close>

theorem write_skips_empty_text_only:
  "(write_block out txt sp l p tt od n = out \<longleftrightarrow> \<not> truthy txt) \<and>
   (truthy txt \<longrightarrow>
      file_contents (write_block out txt sp l p tt od n) =
        file_contents out @
        ''# sp_status = '' @ fmt sp @ nl @
        ''# l1 = '' @ l @ nl @
        ''# person_id = '' @ fmt p @ nl @
        ''# discipline = NA'' @ nl @
        ''# text_type = '' @ tt @ nl @
        ''# original_doc = '' @ fmt od @ nl @
        ''# utterance_id = '' @ str_int n @ nl @
        ''# sentence_id = TBD'' @ nl @
        the txt @ nl @ nl) \<and>
   (\<forall>b\<in>set (document_output root).
      block_body b \<noteq> [] \<and> strip (block_body b) = block_body b \<and>
      (\<exists>c\<in>set (block_body b). \<not> is_space c))"
proof (intro conjI)
  show "write_block out txt sp l p tt od n = out \<longleftrightarrow> \<not> truthy txt"
    by (simp add: write_block_def)
next
  show "truthy txt \<longrightarrow>
      file_contents (write_block out txt sp l p tt od n) =
        file_contents out @
        ''# sp_status = '' @ fmt sp @ nl @
        ''# l1 = '' @ l @ nl @
        ''# person_id = '' @ fmt p @ nl @
        ''# discipline = NA'' @ nl @
        ''# text_type = '' @ tt @ nl @
        ''# original_doc = '' @ fmt od @ nl @
        ''# utterance_id = '' @ str_int n @ nl @
        ''# sentence_id = TBD'' @ nl @
        the txt @ nl @ nl"
    by (simp add: write_block_def file_contents_def block_text_def)
next
  show "\<forall>b\<in>set (document_output root).
      block_body b \<noteq> [] \<and> strip (block_body b) = block_body b \<and>
      (\<exists>c\<in>set (block_body b). \<not> is_space c)"
  proof
    fix b assume "b \<in> set (document_output root)"
    with document_output_trimmed have t: "trimmed (block_body b)" by blast
    then show "block_body b \<noteq> [] \<and> strip (block_body b) = block_body b \<and>
      (\<exists>c\<in>set (block_body b). \<not> is_space c)"
      by (simp add: trimmed_strip_id trimmed_not_blank) (simp add: trimmed_def)
  qed
qed

theorem write_skips_empty_text_only_witness:
  "truthy (Some '' so. '') \<and>
   write_block [] (Some '' so. '') (Some ''NRN'') ''EST'' (Some ''S1'') ''ADV''
     (Some ''adv700ju023'') 1 \<noteq> [] \<and>
   file_contents (write_block [] (Some '' so. '') (Some ''NRN'') ''EST'' (Some ''S1'') ''ADV''
     (Some ''adv700ju023'') 1) =
     ''# sp_status = NRN'' @ nl @ ''# l1 = EST'' @ nl @ ''# person_id = S1'' @ nl @
     ''# discipline = NA'' @ nl @ ''# text_type = ADV'' @ nl @
     ''# original_doc = adv700ju023'' @ nl @ ''# utterance_id = 1'' @ nl @
     ''# sentence_id = TBD'' @ nl @ '' so. '' @ nl @ nl \<and>
   map block_body (document_output
     (Element ''TEI'' [(''ID'', ''adv700ju023'')] None None
        [Element ''BODY'' [] None None
           [Element ''U1'' [(''WHO'', ''S1'')] (Some '' so. '') None
              [Element ''PAUSE'' [] None (Some ''  '') []]]])) = [''so.'']"
  using write_skips_empty_text_only [of "[]" "Some '' so. ''" "Some ''NRN''" "''EST''"
      "Some ''S1''" "''ADV''" "Some ''adv700ju023''" 1
      "Element ''TEI'' [(''ID'', ''adv700ju023'')] None None
        [Element ''BODY'' [] None None
           [Element ''U1'' [(''WHO'', ''S1'')] (Some '' so. '') None
              [Element ''PAUSE'' [] None (Some ''  '') []]]]"]
  by (simp add: eval_defs file_contents_def document_output_def findall_body_def
      text_type_of_def find_speechevent_def attrib_get_def fmt_def str_int_def digits.simps)

theorem write_blank_text_counterexample:
  "strip '' '' = [] \<and>
   write_block [] (Some '' '') (Some ''NS'') ''English'' (Some ''S2'') ''ADV''
     (Some ''adv700ju023'') 1 =
   [\<lparr>sp_status = Some ''NS'', l1 = ''English'', person_id = Some ''S2'', text_type = ''ADV'',
      original_doc = Some ''adv700ju023'', utterance_id = 1, block_body = '' ''\<rparr>]"
  by (simp add: eval_defs)

section \<open>Missing metadata\<close>

text \<open>
  Claim C3 (as amended). Missing metadata is no error. The block written for the text
  of an utterance carries the values of the attributes NSS and WHO as they are looked
  up, absent when the attribute is absent, and the value of FLANG or English when FLANG
  is absent. In the output an absent value is printed as the word None after the equals
  sign, on a line that is always present. A document without a SPEECHEVENT term has the
  text type NA.
\<close>

theorem missing_metadata_defaults:
  "(and_strip tx \<longrightarrow>
      process_utterance (Element tg attrs tx ta []) out tt od n None =
        (out @ [\<lparr>sp_status = map_of attrs ''NSS'',
                  l1 = (case map_of attrs ''FLANG'' of None \<Rightarrow> ''English'' | Some v \<Rightarrow> v),
                  person_id = map_of attrs ''WHO'', text_type = tt, original_doc = od,
                  utterance_id = n, block_body = stripped tx\<rparr>], n + 1)) \<and>
   block_text \<lparr>sp_status = None, l1 = ''English'', person_id = None, text_type = tt,
               original_doc = od, utterance_id = n, block_body = body\<rparr> =
     ''# sp_status = None'' @ nl @
     ''# l1 = English'' @ nl @
     ''# person_id = None'' @ nl @
     ''# discipline = NA'' @ nl @
     ''# text_type = '' @ tt @ nl @
     ''# original_doc = '' @ fmt od @ nl @
     ''# utterance_id = '' @ str_int n @ nl @
     ''# sentence_id = TBD'' @ nl @
     body @ nl @ nl \<and>
   (find_speechevent root = None \<longrightarrow> text_type_of root = ''NA'')"
  by (simp add: leading_text_def flush_parent_tail_def write_block_def truthy_def
      and_strip_nonempty block_text_def fmt_def text_type_of_def)

theorem missing_metadata_defaults_witness:
  "and_strip (Some ''yes'') \<and>
   find_speechevent (Element ''TEI'' [] None None
      [Element ''BODY'' [] None None [Element ''U1'' [] (Some ''yes'') None []]]) = None \<and>
   file_contents (document_output (Element ''TEI'' [] None None
      [Element ''BODY'' [] None None [Element ''U1'' [] (Some ''yes'') None []]])) =
     ''# sp_status = None'' @ nl @ ''# l1 = English'' @ nl @ ''# person_id = None'' @ nl @
     ''# discipline = NA'' @ nl @ ''# text_type = NA'' @ nl @ ''# original_doc = None'' @ nl @
     ''# utterance_id = 1'' @ nl @ ''# sentence_id = TBD'' @ nl @ ''yes'' @ nl @ nl"
  using missing_metadata_defaults [of "Some ''yes''" "''U1''" "[]" None "[]" "''NA''" None 1
      "''yes''"
      "Element ''TEI'' [] None None
        [Element ''BODY'' [] None None [Element ''U1'' [] (Some ''yes'') None []]]"]
  by (simp add: eval_defs file_contents_def document_output_def findall_body_def
      text_type_of_def find_speechevent_def attrib_get_def fmt_def str_int_def digits.simps
      block_text_def)

theorem absent_speaker_rendered_None_counterexample:
  "file_contents (fst (process_utterance (Element ''U1'' [] (Some ''yes'') None [])
      [] ''ADV'' (Some ''adv700ju023'') 1 None)) =
     ''# sp_status = None'' @ nl @ ''# l1 = English'' @ nl @ ''# person_id = None'' @ nl @
     ''# discipline = NA'' @ nl @ ''# text_type = ADV'' @ nl @
     ''# original_doc = adv700ju023'' @ nl @ ''# utterance_id = 1'' @ nl @
     ''# sentence_id = TBD'' @ nl @ ''yes'' @ nl @ nl \<and>
   file_contents (fst (process_utterance (Element ''U1'' [] (Some ''yes'') None [])
      [] ''ADV'' (Some ''adv700ju023'') 1 None)) \<noteq>
     ''# sp_status = '' @ nl @ ''# l1 = English'' @ nl @ ''# person_id = '' @ nl @
     ''# discipline = NA'' @ nl @ ''# text_type = ADV'' @ nl @
     ''# original_doc = adv700ju023'' @ nl @ ''# utterance_id = 1'' @ nl @
     ''# sentence_id = TBD'' @ nl @ ''yes'' @ nl @ nl"
  by (simp add: eval_defs file_contents_def block_text_def fmt_def str_int_def digits.simps
      nl_def)

section \<open>Malformed documents in a batch\<close>

lemma main_loop_append:
  "main_loop d (xs @ ys) w = main_loop d ys (main_loop d xs w)"
  by (induction xs arbitrary: w) auto

lemma main_loop_files_cong:
  "files w1 = files w2 \<Longrightarrow> files (main_loop d xs w1) = files (main_loop d xs w2)"
proof (induction xs arbitrary: w1 w2)
  case Nil
  then show ?case by simp
next
  case (Cons x xs)
  obtain name entry where x: "x = (name, entry)" by (cases x)
  let ?step = "\<lambda>w. case entry of
          IsFile xmlfile \<Rightarrow> parseXML xmlfile (splitext_root name) d w
        | NotAFile \<Rightarrow>
            w\<lparr>stdout := stdout w @
                 [''Error: unable to open file '' @ os_path_join DIR name]\<rparr>"
  from Cons.prems have "files (?step w1) = files (?step w2)"
    by (simp add: parseXML_def Let_def split: dir_entry.splits parse_result.splits)
  then have "files (main_loop d xs (?step w1)) = files (main_loop d xs (?step w2))"
    by (rule Cons.IH)
  with x show ?case by simp
qed

lemma line_kinds:
  "created_line (''Created text file: '' @ a)"
  "\<not> created_line (''Parse error in file '' @ b)"
  "\<not> created_line (''Error: unable to open file '' @ c)"
  "\<not> parse_error_line (''Created text file: '' @ a)"
  "parse_error_line (''Parse error in file '' @ b)"
  "\<not> parse_error_line (''Error: unable to open file '' @ c)"
  by (simp_all add: created_line_def parse_error_line_def startswith_def)

lemma entry_kinds:
  "well_formed (name, IsFile (Tree root))"
  "\<not> well_formed (name, IsFile (ParseError e))"
  "\<not> well_formed (name, NotAFile)"
  "\<not> malformed (name, IsFile (Tree root))"
  "malformed (name, IsFile (ParseError e))"
  "\<not> malformed (name, NotAFile)"
  by (simp_all add: well_formed_def malformed_def)

lemma main_loop_created_count:
  "length (filter created_line (stdout (main_loop d listing w))) =
     length (filter created_line (stdout w)) + length (filter well_formed listing)"
proof (induction listing arbitrary: w)
  case Nil
  show ?case by simp
next
  case (Cons x xs)
  obtain name entry where x: "x = (name, entry)" by (cases x)
  show ?case
  proof (cases entry)
    case NotAFile
    with x show ?thesis by (simp add: Cons.IH line_kinds entry_kinds del: append.simps)
  next
    case (IsFile xmlfile)
    with x show ?thesis
      by (cases xmlfile)
        (simp_all add: Cons.IH parseXML_def Let_def line_kinds entry_kinds del: append.simps)
  qed
qed

lemma main_loop_error_count:
  "length (filter parse_error_line (stdout (main_loop d listing w))) =
     length (filter parse_error_line (stdout w)) + length (filter malformed listing)"
proof (induction listing arbitrary: w)
  case Nil
  show ?case by simp
next
  case (Cons x xs)
  obtain name entry where x: "x = (name, entry)" by (cases x)
  show ?case
  proof (cases entry)
    case NotAFile
    with x show ?thesis by (simp add: Cons.IH line_kinds entry_kinds del: append.simps)
  next
    case (IsFile xmlfile)
    with x show ?thesis
      by (cases xmlfile)
        (simp_all add: Cons.IH parseXML_def Let_def line_kinds entry_kinds del: append.simps)
  qed
qed

lemma main_loop_dom:
  "dom (files (main_loop d listing w)) =
     dom (files w) \<union>
     {os_path_join d (splitext_root name @ ''_Parsed.txt'') | name root.
        (name, IsFile (Tree root)) \<in> set listing}"
proof (induction listing arbitrary: w)
  case Nil
  show ?case by simp
next
  case (Cons x xs)
  obtain name entry where x: "x = (name, entry)" by (cases x)
  show ?case
    unfolding x
    by (auto simp: Cons.IH parseXML_def Let_def split: dir_entry.splits parse_result.splits)
qed

text \<open>
  Claim C7. When parsing a document fails, \<open>parseXML\<close> writes no file and prints one
  line that names the document and the error; the tree walker is not run. The loop goes
  on with the remaining entries: the files after a batch are those of the batch without
  the malformed entry, every entry that parses is reported as created and every
  malformed one as a parse error, and the paths written are exactly those of the entries
  that parse.
\<close>

theorem malformed_document_skipped:
  "parseXML (ParseError e) filename d w =
     w\<lparr>stdout := stdout w @ [''Parse error in file '' @ filename @ '': '' @ e]\<rparr> \<and>
   main_loop d (pre @ (name, IsFile (ParseError e)) # post) w =
     main_loop d post (parseXML (ParseError e) (splitext_root name) d (main_loop d pre w)) \<and>
   files (main_loop d (pre @ (name, IsFile (ParseError e)) # post) w) =
     files (main_loop d (pre @ post) w) \<and>
   length (filter created_line (stdout (main_loop d listing w))) =
     length (filter created_line (stdout w)) + length (filter well_formed listing) \<and>
   length (filter parse_error_line (stdout (main_loop d listing w))) =
     length (filter parse_error_line (stdout w)) + length (filter malformed listing) \<and>
   dom (files (main_loop d listing w)) =
     dom (files w) \<union>
     {os_path_join d (splitext_root name' @ ''_Parsed.txt'') | name' root.
        (name', IsFile (Tree root)) \<in> set listing}"
proof (intro conjI)
  show "parseXML (ParseError e) filename d w =
     w\<lparr>stdout := stdout w @ [''Parse error in file '' @ filename @ '': '' @ e]\<rparr>"
    by (simp add: parseXML_def)
next
  show "main_loop d (pre @ (name, IsFile (ParseError e)) # post) w =
     main_loop d post (parseXML (ParseError e) (splitext_root name) d (main_loop d pre w))"
    by (simp add: main_loop_append)
next
  have "files (parseXML (ParseError e) (splitext_root name) d (main_loop d pre w)) =
        files (main_loop d pre w)"
    by (simp add: parseXML_def)
  then have "files (main_loop d post
                (parseXML (ParseError e) (splitext_root name) d (main_loop d pre w))) =
             files (main_loop d post (main_loop d pre w))"
    by (rule main_loop_files_cong)
  then show "files (main_loop d (pre @ (name, IsFile (ParseError e)) # post) w) =
     files (main_loop d (pre @ post) w)"
    by (simp add: main_loop_append)
next
  show "length (filter created_line (stdout (main_loop d listing w))) =
     length (filter created_line (stdout w)) + length (filter well_formed listing)"
    by (rule main_loop_created_count)
next
  show "length (filter parse_error_line (stdout (main_loop d listing w))) =
     length (filter parse_error_line (stdout w)) + length (filter malformed listing)"
    by (rule main_loop_error_count)
next
  show "dom (files (main_loop d listing w)) =
     dom (files w) \<union>
     {os_path_join d (splitext_root name' @ ''_Parsed.txt'') | name' root.
        (name', IsFile (Tree root)) \<in> set listing}"
    by (rule main_loop_dom)
qed

lemma splitext_root_examples:
  "splitext_root ''a.xml'' = ''a''" "splitext_root ''b.xml'' = ''b''"
  "splitext_root ''c.xml'' = ''c''"
  by (simp_all add: splitext_root_def rfind_def Let_def upt_rec)

theorem malformed_document_skipped_witness:
  "stdout (main
     [(''a.xml'', IsFile (Tree (Element ''TEI'' [] None None []))),
      (''b.xml'', IsFile (ParseError ''no element found: line 9, column 0'')),
      (''c.xml'', IsFile (Tree (Element ''TEI'' [] None None [])))]
     \<lparr>files = Map.empty, stdout = []\<rparr>) =
     [''Created text file: XML_Data/a_Parsed.txt'',
      ''Parse error in file b: no element found: line 9, column 0'',
      ''Created text file: XML_Data/c_Parsed.txt'',
      ''Parsed text files created successfully''] \<and>
   dom (files (main
     [(''a.xml'', IsFile (Tree (Element ''TEI'' [] None None []))),
      (''b.xml'', IsFile (ParseError ''no element found: line 9, column 0'')),
      (''c.xml'', IsFile (Tree (Element ''TEI'' [] None None [])))]
     \<lparr>files = Map.empty, stdout = []\<rparr>)) =
     {''XML_Data/a_Parsed.txt'', ''XML_Data/c_Parsed.txt''}"
  using malformed_document_skipped
    [of "''no element found: line 9, column 0''" "''b''" "''XML_Data''"
        "main_loop ''XML_Data'' [(''a.xml'', IsFile (Tree (Element ''TEI'' [] None None [])))]
           \<lparr>files = Map.empty, stdout = []\<rparr>"
        "[(''a.xml'', IsFile (Tree (Element ''TEI'' [] None None [])))]" "''b.xml''"
        "[(''c.xml'', IsFile (Tree (Element ''TEI'' [] None None [])))]" "[]"]
  by (simp add: main_def parseXML_def splitext_root_examples os_path_join_def startswith_def
      Let_def) auto

end
